theory Spec2Isabelle
  imports Complex_Main "HOL-Library.Word"
begin

unbundle bit_operations_syntax

section \<open>Line-21 closed-caption decoder: embedding of \<^verbatim>\<open>decode_cc.py\<close>\<close>

text \<open>
  The decoder works on one scanline of an image. Opening the image, converting it to
  8-bit luma and cropping the line are done by the imaging library; the embedding starts
  from the resulting row of samples (\<^verbatim>\<open>pixels[x, 0]\<close> for \<^verbatim>\<open>x in range(width)\<close>), so
  \<^verbatim>\<open>width\<close> is the length of the row.

  Python integers are \<^typ>\<open>int\<close>; positions produced by \<^verbatim>\<open>range\<close> are \<^typ>\<open>nat\<close>.
  Python floats are modelled by exact rationals: \<^verbatim>\<open>0.05\<close>, \<^verbatim>\<open>0.2\<close>, \<^verbatim>\<open>0.3\<close>,
  \<^verbatim>\<open>0.251\<close>, \<^verbatim>\<open>0.038\<close> are the decimal fractions, \<^verbatim>\<open>/\<close> is exact division,
  \<^verbatim>\<open>math.floor\<close> and \<^verbatim>\<open>math.ceil\<close> are \<open>\<lfloor>_\<rfloor>\<close> and \<open>\<lceil>_\<rceil>\<close>, and \<^verbatim>\<open>int(_)\<close> of a
  float truncates toward zero. Double rounding is not modelled: the midpoint of a slot is
  a half-integer and exact in double precision, and the other float values are only
  compared with integers or rounded to one, at distances from the thresholds that the
  rounding of a double does not bridge for 8-bit samples and the widths of images.

  A call of \<^verbatim>\<open>decodeFrame\<close> ends in one of three ways: it returns a sequence (the list
  \<^verbatim>\<open>data\<close> or the tuple \<^verbatim>\<open>(0, 0)\<close>, both modelled as an \<^typ>\<open>int list\<close>), it falls off the
  end of the function and returns \<^verbatim>\<open>None\<close>, or an exception leaves it.
\<close>

datatype py_error = ValueError | IndexError | TypeError

datatype outcome = Returned "int list" | ReturnedNone | Raised py_error

subsection \<open>Python primitives\<close>

text \<open>\<^verbatim>\<open>xs[i]\<close>: a negative index counts from the end; anything else out of range raises.\<close>

definition py_index :: "int list \<Rightarrow> int \<Rightarrow> py_error + int" where
  "py_index xs i =
     (if 0 \<le> i \<and> i < int (length xs) then Inr (xs ! nat i)
      else if i < 0 \<and> - int (length xs) \<le> i then Inr (xs ! nat (int (length xs) + i))
      else Inl IndexError)"

text \<open>\<^verbatim>\<open>int(q)\<close> for a float \<open>q\<close>: truncation toward zero.\<close>

definition py_int :: "rat \<Rightarrow> int" where
  "py_int q = (if 0 \<le> q then \<lfloor>q\<rfloor> else \<lceil>q\<rceil>)"

subsection \<open>Peak brightness and normalisation (lines 92--116)\<close>

text \<open>The loop \<^verbatim>\<open>if cpixel > maxluma: maxluma = cpixel\<close>, started with \<^verbatim>\<open>maxluma = 0\<close>.\<close>

fun find_maxluma :: "int list \<Rightarrow> int \<Rightarrow> int" where
  "find_maxluma [] maxluma = maxluma"
| "find_maxluma (cpixel # rest) maxluma =
     find_maxluma rest (if cpixel > maxluma then cpixel else maxluma)"

text \<open>
  The in-place conversion to 0 and 1 with hysteresis; the second argument is
  \<^verbatim>\<open>lastVal\<close>, the remaining samples are the third.
\<close>

fun normalize :: "int \<Rightarrow> int \<Rightarrow> int list \<Rightarrow> int list" where
  "normalize maxluma lastVal [] = []"
| "normalize maxluma lastVal (s # rest) =
     (let v = \<lfloor>100 * (of_int s / of_int maxluma :: rat)\<rfloor>;
          b = (if 45 \<le> v \<and> v \<le> 55 then lastVal else (if v > 50 then 1 else 0))
      in b # normalize maxluma b rest)"

definition binary_row :: "int list \<Rightarrow> int list" where
  "binary_row row = normalize (find_maxluma row 0) 0 row"

subsection \<open>Run-in location (lines 118--160)\<close>

text \<open>
  The search for the first 1: \<open>first_one vs x\<close> walks the values from position \<open>x\<close> on
  and gives the position at which the loop breaks, or \<open>None\<close> when the loop runs to the
  end, in which case \<^verbatim>\<open>startRunIn\<close> keeps its initial value 0.
\<close>

fun first_one :: "int list \<Rightarrow> nat \<Rightarrow> nat option" where
  "first_one [] x = None"
| "first_one (v # rest) x = (if v = 1 then Some x else first_one rest (Suc x))"

definition find_startRunIn :: "int list \<Rightarrow> nat" where
  "find_startRunIn values = (case first_one values 0 of Some x \<Rightarrow> x | None \<Rightarrow> 0)"

text \<open>
  The transition count: \<open>count_transitions vs x lastVal count\<close> walks the values from
  position \<open>x\<close> on and gives the position of the 13th change, or \<open>None\<close> when the row
  ends first, in which case \<^verbatim>\<open>stopRunIn\<close> keeps its initial value 0.
\<close>

fun count_transitions :: "int list \<Rightarrow> nat \<Rightarrow> int \<Rightarrow> nat \<Rightarrow> nat option" where
  "count_transitions [] x lastVal count = None"
| "count_transitions (v # rest) x lastVal count =
     (if v \<noteq> lastVal then
        (if count + 1 = 13 then Some x
         else count_transitions rest (Suc x) v (count + 1))
      else count_transitions rest (Suc x) lastVal count)"

definition find_stopRunIn :: "int list \<Rightarrow> nat \<Rightarrow> nat" where
  "find_stopRunIn values startRunIn =
     (case count_transitions (drop startRunIn values) startRunIn 1 0 of
        Some x \<Rightarrow> x | None \<Rightarrow> 0)"

text \<open>
  The three rejections of the locator; \<open>None\<close> stands for \<^verbatim>\<open>return (0, 0)\<close>, and
  \<open>Some (startRunIn, stopRunIn)\<close> for going on to the calibration.
\<close>

definition locate_run_in :: "int list \<Rightarrow> (nat \<times> nat) option" where
  "locate_run_in values =
     (let width = length values;
          startRunIn = find_startRunIn values
      in if (of_nat startRunIn :: rat) > of_nat width * 0.05 then None
         else
           let stopRunIn = find_stopRunIn values startRunIn
           in if stopRunIn = 0 then None
              else if (of_nat stopRunIn :: rat) < 0.2 * of_nat width
                      \<or> (of_nat stopRunIn :: rat) > 0.3 * of_nat width then None
              else Some (startRunIn, stopRunIn))"

subsection \<open>Timing calibration (lines 165--178)\<close>

text \<open>
  \<^verbatim>\<open>while values[bitStart] == 0 and bitStart < width - 1: bitStart = bitStart + 1\<close>.
  The subscript raises when \<open>bitStart\<close> is not a position of the row.
\<close>

function scan_bitStart :: "int list \<Rightarrow> nat \<Rightarrow> py_error + nat" where
  "scan_bitStart values bitStart =
     (if length values \<le> bitStart then Inl IndexError
      else if values ! bitStart = 0 \<and> int bitStart < int (length values) - 1
      then scan_bitStart values (Suc bitStart)
      else Inr bitStart)"
  by pat_completeness auto
termination
  by (relation "measure (\<lambda>(values, bitStart). length values - bitStart)") auto

declare scan_bitStart.simps [simp del]

definition bit_width :: "nat \<Rightarrow> nat \<Rightarrow> int" where
  "bit_width startRunIn stopRunIn =
     (let runInLength = int stopRunIn - int startRunIn;
          dataSpan = (of_int runInLength :: rat) / 0.251
      in \<lceil>dataSpan * 0.038\<rceil>)"

text \<open>The result is the pair \<open>(bitStart, bitWidth)\<close>.\<close>

definition calibrate :: "int list \<Rightarrow> nat \<Rightarrow> nat \<Rightarrow> py_error + (int \<times> int)" where
  "calibrate values startRunIn stopRunIn =
     (let bitWidth = bit_width startRunIn stopRunIn
      in case scan_bitStart values stopRunIn of
           Inl e \<Rightarrow> Inl e
         | Inr bitStart \<Rightarrow> Inr (int bitStart + bitWidth, bitWidth))"

subsection \<open>Bit sampling (lines 185--206)\<close>

text \<open>
  With debugging on, \<^verbatim>\<open>getBit\<close> prints every sample of the slot, reading
  \<^verbatim>\<open>values[o]\<close> for \<^verbatim>\<open>o = bitStart + bit * bitWidth + x\<close>, \<^verbatim>\<open>x in range(bitWidth)\<close>.
  The printed samples are the result; a subscript out of range raises. The argument
  \<^verbatim>\<open>bit\<close> of the source is \<open>bitIdx\<close> here.
\<close>

fun debug_dump :: "int list \<Rightarrow> int \<Rightarrow> int \<Rightarrow> int \<Rightarrow> nat list \<Rightarrow> py_error + int list" where
  "debug_dump values bitStart bitWidth bitIdx [] = Inr []"
| "debug_dump values bitStart bitWidth bitIdx (x # xs) =
     (case py_index values (bitStart + bitIdx * bitWidth + int x) of
        Inl e \<Rightarrow> Inl e
      | Inr p \<Rightarrow>
          (case debug_dump values bitStart bitWidth bitIdx xs of
             Inl e \<Rightarrow> Inl e
           | Inr ps \<Rightarrow> Inr (p # ps)))"

definition bit_offset :: "int \<Rightarrow> int \<Rightarrow> int \<Rightarrow> int" where
  "bit_offset bitStart bitWidth bitIdx =
     py_int (of_int (bitStart + bitIdx * bitWidth) + of_int bitWidth / 2)"

definition getBit :: "bool \<Rightarrow> int list \<Rightarrow> int \<Rightarrow> int \<Rightarrow> int \<Rightarrow> py_error + int" where
  "getBit DEBUG values bitStart bitWidth bitIdx =
     (let offset = bit_offset bitStart bitWidth bitIdx
      in if offset > int (length values) - 1 \<or> offset < 0 then Inr (- 1)
         else if DEBUG then
           (case debug_dump values bitStart bitWidth bitIdx [0..<nat bitWidth] of
              Inl e \<Rightarrow> Inl e
            | Inr printed \<Rightarrow> Inr (values ! nat offset))
         else Inr (values ! nat offset))"

subsection \<open>Byte assembly (lines 209--245)\<close>

text \<open>
  The inner loop \<^verbatim>\<open>for b in range(0, 7)\<close> over the remaining positions, with the
  running \<^verbatim>\<open>byte\<close> and \<^verbatim>\<open>parity\<close>; \<open>Inl ValueError\<close> is the \<^verbatim>\<open>raise\<close>.
\<close>

fun read_data_bits ::
  "bool \<Rightarrow> int list \<Rightarrow> int \<Rightarrow> int \<Rightarrow> int \<Rightarrow> nat list \<Rightarrow> int \<Rightarrow> int \<Rightarrow> py_error + (int \<times> int)" where
  "read_data_bits DEBUG values bitStart bitWidth base [] byte parity = Inr (byte, parity)"
| "read_data_bits DEBUG values bitStart bitWidth base (b # bs) byte parity =
     (case getBit DEBUG values bitStart bitWidth (base + int b) of
        Inl e \<Rightarrow> Inl e
      | Inr v \<Rightarrow>
          if v = - 1 then Inl ValueError
          else if v \<noteq> 0 then
            read_data_bits DEBUG values bitStart bitWidth base bs (byte + push_bit b 1) (parity + 1)
          else read_data_bits DEBUG values bitStart bitWidth base bs byte parity)"

text \<open>One pass of \<^verbatim>\<open>for base in (0, 8)\<close>: the seven data bits, then the parity test.\<close>

definition decode_group :: "bool \<Rightarrow> int list \<Rightarrow> int \<Rightarrow> int \<Rightarrow> int \<Rightarrow> py_error + int" where
  "decode_group DEBUG values bitStart bitWidth base =
     (case read_data_bits DEBUG values bitStart bitWidth base [0..<7] 0 0 of
        Inl e \<Rightarrow> Inl e
      | Inr (byte, parity) \<Rightarrow>
          (case getBit DEBUG values bitStart bitWidth (base + 7) of
             Inl e \<Rightarrow> Inl e
           | Inr p \<Rightarrow> if (p + parity) AND 1 \<noteq> 1 then Inl ValueError else Inr byte))"

text \<open>The body of the \<^verbatim>\<open>try\<close>: sanity bits, then the two groups.\<close>

definition assemble :: "bool \<Rightarrow> int list \<Rightarrow> int \<Rightarrow> int \<Rightarrow> py_error + int list" where
  "assemble DEBUG values bitStart bitWidth =
     (case getBit DEBUG values bitStart bitWidth (- 3) of
        Inl e \<Rightarrow> Inl e
      | Inr s3 \<Rightarrow>
     (case getBit DEBUG values bitStart bitWidth (- 2) of
        Inl e \<Rightarrow> Inl e
      | Inr s2 \<Rightarrow>
     (case getBit DEBUG values bitStart bitWidth (- 1) of
        Inl e \<Rightarrow> Inl e
      | Inr s1 \<Rightarrow>
          if (0, 0, 1) \<noteq> (s3, s2, s1) then Inl ValueError
          else
            (case decode_group DEBUG values bitStart bitWidth 0 of
               Inl e \<Rightarrow> Inl e
             | Inr byte0 \<Rightarrow>
                 (case decode_group DEBUG values bitStart bitWidth 8 of
                    Inl e \<Rightarrow> Inl e
                  | Inr byte1 \<Rightarrow> Inr [byte0, byte1])))))"

subsection \<open>The frame decoder and the batch driver\<close>

text \<open>
  The handler \<^verbatim>\<open>except ValueError\<close> returns \<^verbatim>\<open>(0, 0)\<close> only in its \<^verbatim>\<open>else\<close> branch;
  with debugging on it does \<^verbatim>\<open>pass\<close> and the function ends without a \<^verbatim>\<open>return\<close>.
  Any other exception is not caught.
\<close>

definition handle_try :: "bool \<Rightarrow> py_error + int list \<Rightarrow> outcome" where
  "handle_try DEBUG r =
     (case r of
        Inr data \<Rightarrow> Returned data
      | Inl ValueError \<Rightarrow> (if DEBUG then ReturnedNone else Returned [0, 0])
      | Inl e \<Rightarrow> Raised e)"

definition decodeFrame :: "bool \<Rightarrow> int list \<Rightarrow> outcome" where
  "decodeFrame DEBUG row =
     (let maxluma = find_maxluma row 0
      in if maxluma < 32 then Returned [0, 0]
         else
           let values = normalize maxluma 0 row
           in case locate_run_in values of
                None \<Rightarrow> Returned [0, 0]
              | Some (startRunIn, stopRunIn) \<Rightarrow>
                  (case calibrate values startRunIn stopRunIn of
                     Inl e \<Rightarrow> Raised e
                   | Inr (bitStart, bitWidth) \<Rightarrow>
                       handle_try DEBUG (assemble DEBUG values bitStart bitWidth)))"

text \<open>
  \<^verbatim>\<open>bytes.append(b)\<close> for each \<open>b\<close> of one result: a \<^verbatim>\<open>bytearray\<close> takes values
  in \<open>range(256)\<close> only.
\<close>

fun append_all :: "int list \<Rightarrow> int list \<Rightarrow> py_error + int list" where
  "append_all bytes [] = Inr bytes"
| "append_all bytes (b # bs) =
     (if 0 \<le> b \<and> b < 256 then append_all (bytes @ [b]) bs else Inl ValueError)"

text \<open>
  \<^verbatim>\<open>for r in results: for b in r: bytes.append(b)\<close>. Iterating over \<^verbatim>\<open>None\<close> raises
  \<^verbatim>\<open>TypeError\<close>. An exception raised in a worker is raised again by \<^verbatim>\<open>starmap\<close>,
  before any result is collected.
\<close>

fun collect :: "int list \<Rightarrow> outcome list \<Rightarrow> py_error + int list" where
  "collect bytes [] = Inr bytes"
| "collect bytes (Returned r # rs) =
     (case append_all bytes r of Inl e \<Rightarrow> Inl e | Inr bytes' \<Rightarrow> collect bytes' rs)"
| "collect bytes (ReturnedNone # rs) = Inl TypeError"
| "collect bytes (Raised e # rs) = Inl e"

fun first_raised :: "outcome list \<Rightarrow> py_error option" where
  "first_raised [] = None"
| "first_raised (Raised e # rs) = Some e"
| "first_raised (r # rs) = first_raised rs"

text \<open>
  \<open>sampler image line\<close> is the row the imaging library yields for line \<open>line\<close> of
  \<open>image\<close>. \<^verbatim>\<open>pool.starmap\<close> gives the results in the order of its arguments.
\<close>

definition getByteStream :: "('img \<Rightarrow> int \<Rightarrow> int list) \<Rightarrow> 'img list \<Rightarrow> int \<Rightarrow> bool \<Rightarrow> py_error + int list" where
  "getByteStream sampler images line DEBUG =
     (let results = map (\<lambda>i. decodeFrame DEBUG (sampler i line)) images
      in case first_raised results of
           Some e \<Rightarrow> Inl e
         | None \<Rightarrow> collect [] results)"

subsection \<open>Sample rows\<close>

text \<open>
  Rows used to run the decoder. Samples are 0 or 255; a pulse of the run-in is one sample
  wide, so the 13th change is 13 positions after the first 1 and a bit is two samples wide.
  \<open>frame_ok\<close> carries the bytes 65 and 0, each with its odd-parity bit.
\<close>

definition frame_ok :: "int list" where
  "frame_ok =
     [255, 0, 255, 0, 255, 0, 255, 0, 255, 0, 255, 0, 255, 0, 0, 0, 255, 255, 255, 255, 0,
      0, 0, 0, 0, 0, 0, 0, 0, 0, 255, 255, 255, 255, 0, 0, 0, 0, 0, 0, 0, 0, 0, 0, 0, 0, 0,
      0, 255, 255, 0, 0]"

text \<open>\<open>frame_ok\<close> with the parity bit of the first byte cleared.\<close>

definition frame_bad_parity :: "int list" where
  "frame_bad_parity =
     [255, 0, 255, 0, 255, 0, 255, 0, 255, 0, 255, 0, 255, 0, 0, 0, 255, 255, 255, 255, 0,
      0, 0, 0, 0, 0, 0, 0, 0, 0, 255, 255, 0, 0, 0, 0, 0, 0, 0, 0, 0, 0, 0, 0, 0, 0, 0, 0,
      255, 255, 0, 0]"

text \<open>
  The same signal shifted right by four samples in a row of 60: the first 1 is at
  position 4, the 13th change at position 17.
\<close>

definition frame_late_start :: "int list" where
  "frame_late_start =
     [0, 0, 0, 0, 255, 0, 255, 0, 255, 0, 255, 0, 255, 0, 255, 0, 255, 0, 0, 0, 255, 255,
      255, 255, 0, 0, 0, 0, 0, 0, 0, 0, 0, 0, 255, 255, 255, 255, 0, 0, 0, 0, 0, 0, 0, 0,
      0, 0, 0, 0, 0, 0, 255, 255, 0, 0, 0, 0, 0, 0]"

text \<open>
  A row of 48 samples carrying the bytes 65 and 66 that ends with the last data bit of
  the second byte: the slot of its parity bit lies beyond the row.
\<close>

definition frame_truncated :: "int list" where
  "frame_truncated =
     [255, 0, 255, 0, 255, 0, 255, 0, 255, 0, 255, 0, 255, 0, 0, 0, 255, 255, 255, 255, 0,
      0, 0, 0, 0, 0, 0, 0, 0, 0, 255, 255, 255, 255, 0, 0, 255, 255, 0, 0, 0, 0, 0, 0, 0,
      0, 255, 255]"

text \<open>\<open>frame_ok\<close> padded with zeros to 100 samples: the run-in ends at 13 percent.\<close>

definition frame_short_run_in :: "int list" where
  "frame_short_run_in = frame_ok @ replicate 48 0"

subsection \<open>The classification rule as the specification words it\<close>

text \<open>
  \<open>classify_spec v previous b\<close>: \<open>b\<close> is the class of a sample at \<open>v\<close> percent of the
  peak; the hysteresis test comes first, and outside the band 45 to 55 the value is 1
  above 50 and 0 below 45.
\<close>

definition classify_spec :: "int \<Rightarrow> int \<Rightarrow> int \<Rightarrow> bool" where
  "classify_spec v previous b =
     (if 45 \<le> v \<and> v \<le> 55 then b = previous
      else if v > 50 then b = 1
      else v < 45 \<and> b = 0)"

text \<open>A row with samples inside the hysteresis band, at 50, 47, 50, 54 and 56 percent.\<close>

definition wobble :: "int list" where
  "wobble = [255, 130, 120, 100, 0, 130, 140, 143]"

subsection \<open>The bit sampler as the specification words it\<close>

text \<open>
  The offset is the floor of the slot's midpoint; the result is the value at that offset,
  or \<open>-1\<close> when the offset is outside \<open>[0, width)\<close>.
\<close>

definition getBit_spec :: "int list \<Rightarrow> int \<Rightarrow> int \<Rightarrow> int \<Rightarrow> int" where
  "getBit_spec values bitStart bitWidth bitIdx =
     (let offset = \<lfloor>of_int bitStart + of_int bitIdx * of_int bitWidth + of_int bitWidth / 2 :: rat\<rfloor>
      in if 0 \<le> offset \<and> offset < int (length values) then values ! nat offset else - 1)"

subsection \<open>An encoder for line 21\<close>






subsection \<open>Further rows and the bytes of a result\<close>

text \<open>
  A row of 67 samples whose run-in ends at position 14, so that a bit is three samples
  wide; it carries the bytes 65 and 0. The slot of the last parity bit is
  positions 65 to 67: its midpoint 66 is the last sample of the row.
\<close>

definition frame_wide_bits :: "int list" where
  "frame_wide_bits =
     [255, 255, 0, 255, 0, 255, 0, 255, 0, 255, 0, 255, 0, 255, 0, 0, 0, 255, 255, 255,
      255, 255, 255, 0, 0, 0, 0, 0, 0, 0, 0, 0, 0, 0, 0, 0, 0, 0, 255, 255, 255, 255, 255,
      255, 0, 0, 0, 0, 0, 0, 0, 0, 0, 0, 0, 0, 0, 0, 0, 0, 0, 0, 0, 0, 0, 255, 255]"

text \<open>The sequence a call returned; empty when it returned \<^verbatim>\<open>None\<close> or raised.\<close>

definition returned_bytes :: "outcome \<Rightarrow> int list" where
  "returned_bytes r = (case r of Returned bytes \<Rightarrow> bytes | ReturnedNone \<Rightarrow> [] | Raised e \<Rightarrow> [])"

section \<open>Properties\<close>

subsection \<open>Peak brightness\<close>

lemma find_maxluma_cases: "find_maxluma xs m = m \<or> find_maxluma xs m \<in> set xs"
proof (induction xs arbitrary: m)
  case Nil
  show ?case by simp
next
  case (Cons c cs)
  show ?case
    using Cons.IH [of "if c > m then c else m"] by (auto split: if_splits)
qed

lemma find_maxluma_lower: "m \<le> find_maxluma xs m"
proof (induction xs arbitrary: m)
  case Nil
  show ?case by simp
next
  case (Cons c cs)
  have "(if c > m then c else m) \<le> find_maxluma cs (if c > m then c else m)"
    by (rule Cons.IH)
  then show ?case by (simp split: if_splits)
qed

lemma find_maxluma_upper: "x \<in> set xs \<Longrightarrow> x \<le> find_maxluma xs m"
proof (induction xs arbitrary: m)
  case Nil
  then show ?case by simp
next
  case (Cons c cs)
  show ?case
  proof (cases "x \<in> set cs")
    case True
    then show ?thesis using Cons.IH by simp
  next
    case False
    with Cons.prems have "x = c" by simp
    moreover have "(if c > m then c else m) \<le> find_maxluma cs (if c > m then c else m)"
      by (rule find_maxluma_lower)
    ultimately show ?thesis by (simp split: if_splits)
  qed
qed

lemma blank_peak: "\<forall>s\<in>set row. s < 32 \<Longrightarrow> find_maxluma row 0 < 32"
  using find_maxluma_cases [of row 0] by auto

text \<open>
  C9. A row whose samples are all below 32 is rejected at once: the result is the pair
  \<open>(0, 0)\<close>, whatever the debug flag, and it is produced by the first test of
  \<open>decodeFrame\<close>, before the row is normalised.
\<close>

theorem blank_line_rejected:
  "\<forall>s\<in>set row. s < 32 \<Longrightarrow> decodeFrame DEBUG row = Returned [0, 0]"
  unfolding decodeFrame_def using blank_peak [of row] by simp

theorem blank_line_rejected_witness:
  "list_all (\<lambda>s. s < 32) [0, 0, 31, 7::int] \<and> decodeFrame True [0, 0, 31, 7] = Returned [0, 0]"
proof
  show "list_all (\<lambda>s. s < 32) [0, 0, 31, 7::int]" by simp
  show "decodeFrame True [0, 0, 31, 7] = Returned [0, 0]"
    by (rule blank_line_rejected) simp
qed

subsection \<open>Byte assembly\<close>

lemma read_data_bits_range:
  "read_data_bits DEBUG values bitStart bitWidth base bs byte parity = Inr (byte', parity')
   \<Longrightarrow> byte \<le> byte' \<and> byte' \<le> byte + (\<Sum>b\<leftarrow>bs. 2 ^ b)"
proof (induction bs arbitrary: byte parity)
  case Nil
  then show ?case by simp
next
  case (Cons b bs)
  from Cons.prems obtain v where v: "getBit DEBUG values bitStart bitWidth (base + int b) = Inr v"
    by (auto split: sum.splits)
  show ?case
  proof (cases "v = 0")
    case True
    with Cons.prems v
    have *: "read_data_bits DEBUG values bitStart bitWidth base bs byte parity = Inr (byte', parity')"
      by simp
    have p: "(0::int) \<le> 2 ^ b" by simp
    from Cons.IH [OF *] have lo: "byte \<le> byte'"
      and hi: "byte' \<le> byte + (\<Sum>b\<leftarrow>bs. 2 ^ b)" by simp_all
    from hi p have "byte' \<le> byte + (2 ^ b + (\<Sum>b\<leftarrow>bs. 2 ^ b))" by linarith
    with lo show ?thesis by simp
  next
    case False
    with Cons.prems v
    have "read_data_bits DEBUG values bitStart bitWidth base bs (byte + push_bit b 1) (parity + 1)
            = Inr (byte', parity')"
      by (simp split: if_splits)
    from Cons.IH [OF this] have lo: "byte + 2 ^ b \<le> byte'"
      and hi: "byte' \<le> byte + 2 ^ b + (\<Sum>b\<leftarrow>bs. 2 ^ b)"
      by (simp_all add: push_bit_eq_mult)
    have p: "(0::int) \<le> 2 ^ b" by simp
    from lo p have "byte \<le> byte'" by linarith
    with hi show ?thesis by simp
  qed
qed

lemma seven_bits_sum: "(\<Sum>b\<leftarrow>[0..<7]. (2::int) ^ b) = 127"
  by code_simp

lemma decode_group_range:
  assumes "decode_group DEBUG values bitStart bitWidth base = Inr byte"
  shows "0 \<le> byte \<and> byte \<le> 127"
proof -
  from assms obtain parity where
    "read_data_bits DEBUG values bitStart bitWidth base [0..<7] 0 0 = Inr (byte, parity)"
    unfolding decode_group_def by (auto split: sum.splits if_splits)
  from read_data_bits_range [OF this] show ?thesis
    by (simp only: seven_bits_sum) simp
qed

lemma assemble_shape:
  assumes "assemble DEBUG values bitStart bitWidth = Inr data"
  shows "\<exists>byte0 byte1. data = [byte0, byte1]
           \<and> decode_group DEBUG values bitStart bitWidth 0 = Inr byte0
           \<and> decode_group DEBUG values bitStart bitWidth 8 = Inr byte1"
  using assms unfolding assemble_def by (auto split: sum.splits if_splits)

lemma assemble_range:
  assumes "assemble DEBUG values bitStart bitWidth = Inr data"
  shows "length data = 2 \<and> (\<forall>b\<in>set data. 0 \<le> b \<and> b \<le> 127)"
proof -
  from assemble_shape [OF assms] obtain byte0 byte1 where
    d: "data = [byte0, byte1]" and
    g0: "decode_group DEBUG values bitStart bitWidth 0 = Inr byte0" and
    g8: "decode_group DEBUG values bitStart bitWidth 8 = Inr byte1"
    by blast
  from decode_group_range [OF g0] decode_group_range [OF g8] d show ?thesis by simp
qed

lemma handle_try_Returned:
  "handle_try DEBUG r = Returned bytes \<Longrightarrow> r = Inr bytes \<or> bytes = [0, 0]"
  unfolding handle_try_def by (auto split: sum.splits py_error.splits if_splits)

lemma decodeFrame_Returned:
  assumes "decodeFrame DEBUG row = Returned bytes"
  shows "bytes = [0, 0] \<or> (\<exists>values bitStart bitWidth. assemble DEBUG values bitStart bitWidth = Inr bytes)"
  using assms unfolding decodeFrame_def Let_def
  by (auto split: if_splits option.splits sum.splits prod.splits dest: handle_try_Returned)

text \<open>
  C10. Whenever \<open>decodeFrame\<close> returns a sequence, it has two elements and each lies
  between 0 and 127: a byte is a sum of \<open>1 << b\<close> for distinct \<open>b < 7\<close>, and the parity bit
  is never added to it.
\<close>

theorem decoded_bytes_seven_bit:
  assumes "decodeFrame DEBUG row = Returned bytes"
  shows "length bytes = 2 \<and> (\<forall>b\<in>set bytes. 0 \<le> b \<and> b \<le> 127)"
  using decodeFrame_Returned [OF assms] assemble_range by auto

theorem decoded_bytes_seven_bit_witness:
  "decodeFrame False frame_ok = Returned [65, 0]
   \<and> length [65, 0 :: int] = 2 \<and> list_all (\<lambda>b. 0 \<le> b \<and> b \<le> 127) [65, 0 :: int]"
proof -
  have h: "decodeFrame False frame_ok = Returned [65, 0]" by code_simp
  from decoded_bytes_seven_bit [OF h] show ?thesis using h by simp
qed

subsection \<open>Normalisation\<close>

lemma percent_floor: "\<lfloor>100 * (of_int s / of_int m :: rat)\<rfloor> = (100 * s) div m"
proof -
  have "100 * (of_int s / of_int m :: rat) = of_int (100 * s) / of_int m" by simp
  then show ?thesis by (simp only: floor_divide_of_int_eq)
qed

lemma normalize_Cons:
  "normalize m lv (s # rest) =
     (if 45 \<le> (100 * s) div m \<and> (100 * s) div m \<le> 55 then lv
      else if (100 * s) div m > 50 then 1 else 0)
     # normalize m
         (if 45 \<le> (100 * s) div m \<and> (100 * s) div m \<le> 55 then lv
          else if (100 * s) div m > 50 then 1 else 0) rest"
  by (simp only: normalize.simps percent_floor Let_def)

lemma length_normalize: "length (normalize m lv xs) = length xs"
  by (induction xs arbitrary: lv) (simp_all only: normalize_Cons normalize.simps(1) list.size)

lemma normalize_nth:
  "i < length xs \<Longrightarrow>
   classify_spec ((100 * xs ! i) div m)
     (if i = 0 then lv else normalize m lv xs ! (i - 1)) (normalize m lv xs ! i)"
proof (induction xs arbitrary: lv i)
  case Nil
  then show ?case by simp
next
  case (Cons s rest)
  let ?b = "if 45 \<le> (100 * s) div m \<and> (100 * s) div m \<le> 55 then lv
            else if (100 * s) div m > 50 then 1 else 0"
  have unfold: "normalize m lv (s # rest) = ?b # normalize m ?b rest"
    by (rule normalize_Cons)
  show ?case
  proof (cases i)
    case 0
    have "classify_spec ((100 * s) div m) lv ?b"
      unfolding classify_spec_def by auto
    with 0 show ?thesis by (simp only: unfold nth_Cons_0 if_True simp_thms)
  next
    case (Suc j)
    with Cons.prems have j: "j < length rest" by simp
    from Cons.IH [OF j, of ?b]
    have "classify_spec ((100 * rest ! j) div m)
            (if j = 0 then ?b else normalize m ?b rest ! (j - 1)) (normalize m ?b rest ! j)" .
    moreover have "(if j = 0 then ?b else normalize m ?b rest ! (j - 1))
                     = (?b # normalize m ?b rest) ! j"
      by (cases j) simp_all
    ultimately show ?thesis
      using Suc by (simp only: unfold nth_Cons_Suc diff_Suc_1 nat.simps if_False)
  qed
qed

lemma normalize_binary:
  "lv = 0 \<or> lv = 1 \<Longrightarrow> b \<in> set (normalize m lv xs) \<Longrightarrow> b = 0 \<or> b = 1"
proof (induction xs arbitrary: lv)
  case Nil
  then show ?case by simp
next
  case (Cons s rest)
  let ?h = "if 45 \<le> (100 * s) div m \<and> (100 * s) div m \<le> 55 then lv
            else if (100 * s) div m > 50 then 1 else 0"
  have h: "?h = 0 \<or> ?h = 1" using Cons.prems(1) by auto
  have "normalize m lv (s # rest) = ?h # normalize m ?h rest" by (rule normalize_Cons)
  with Cons.prems(2) have "b = ?h \<or> b \<in> set (normalize m ?h rest)" by simp
  then show ?case using h Cons.IH [OF h] by blast
qed

lemma binary_row_binary: "b \<in> set (binary_row row) \<Longrightarrow> b = 0 \<or> b = 1"
  unfolding binary_row_def by (rule normalize_binary [of 0]) simp_all

lemma peak_is_Max: "0 < find_maxluma row 0 \<Longrightarrow> find_maxluma row 0 = Max (set row)"
proof -
  assume pos: "0 < find_maxluma row 0"
  with find_maxluma_cases [of row 0] have mem: "find_maxluma row 0 \<in> set row" by auto
  show ?thesis
  proof (rule sym, rule Max_eqI)
    show "finite (set row)" by simp
    show "\<And>y. y \<in> set row \<Longrightarrow> y \<le> find_maxluma row 0" by (rule find_maxluma_upper)
    show "find_maxluma row 0 \<in> set row" by (rule mem)
  qed
qed

text \<open>
  C8. For a row whose peak \<open>maxluma\<close> is at least 32, the peak is the largest sample, the
  binary row is as long as the row, and its value at every position is the class of
  \<open>v = floor(100 * sample / maxluma)\<close>: the previous value when \<open>45 \<le> v \<le> 55\<close> (0 before the
  first sample), otherwise 1 when \<open>v > 50\<close> and 0 when \<open>v < 45\<close>.
\<close>

theorem normalizer_classifies:
  assumes "32 \<le> find_maxluma row 0"
  shows "find_maxluma row 0 = Max (set row)
         \<and> length (binary_row row) = length row
         \<and> (\<forall>i<length row.
               classify_spec ((100 * row ! i) div find_maxluma row 0)
                 (if i = 0 then 0 else binary_row row ! (i - 1)) (binary_row row ! i))"
proof (intro conjI allI impI)
  from assms show "find_maxluma row 0 = Max (set row)" by (intro peak_is_Max) simp
  show "length (binary_row row) = length row"
    unfolding binary_row_def by (rule length_normalize)
  fix i assume "i < length row"
  then show "classify_spec ((100 * row ! i) div find_maxluma row 0)
                 (if i = 0 then 0 else binary_row row ! (i - 1)) (binary_row row ! i)"
    unfolding binary_row_def by (rule normalize_nth)
qed

lemma wobble_row: "binary_row wobble = [1, 1, 1, 0, 0, 0, 0, 1]"
  by code_simp

theorem normalizer_classifies_witness:
  "32 \<le> find_maxluma wobble 0
   \<and> length (binary_row wobble) = length wobble
   \<and> classify_spec ((100 * wobble ! 1) div find_maxluma wobble 0) (binary_row wobble ! 0) (binary_row wobble ! 1)
   \<and> binary_row wobble ! 1 = 1"
proof -
  have h: "32 \<le> find_maxluma wobble 0" by code_simp
  have l: "1 < length wobble" by code_simp
  from normalizer_classifies [OF h] l
  have "classify_spec ((100 * wobble ! 1) div find_maxluma wobble 0)
          (if (1::nat) = 0 then 0 else binary_row wobble ! (1 - 1)) (binary_row wobble ! 1)"
    by blast
  moreover from normalizer_classifies [OF h] have "length (binary_row wobble) = length wobble"
    by blast
  moreover have "binary_row wobble ! 1 = 1" by code_simp
  ultimately show ?thesis using h by simp
qed

subsection \<open>Run-in location\<close>

lemma first_one_None: "1 \<notin> set vs \<Longrightarrow> first_one vs x = None"
  by (induction vs arbitrary: x) auto

lemma first_one_Some:
  "i < length vs \<Longrightarrow> vs ! i = 1 \<Longrightarrow> (\<forall>j<i. vs ! j \<noteq> 1) \<Longrightarrow> first_one vs x = Some (x + i)"
proof (induction vs arbitrary: x i)
  case Nil
  then show ?case by simp
next
  case (Cons v rest)
  show ?case
  proof (cases i)
    case 0
    with Cons.prems show ?thesis by simp
  next
    case (Suc k)
    with Cons.prems have "v \<noteq> 1" by auto
    moreover from Suc Cons.prems have "k < length rest" "rest ! k = 1" by simp_all
    moreover from Suc Cons.prems have "\<forall>j<k. rest ! j \<noteq> 1" by auto
    ultimately show ?thesis using Cons.IH [of k "Suc x"] Suc by simp
  qed
qed

lemma count_transitions_steady:
  "\<forall>v\<in>set vs. v = lastVal \<Longrightarrow> count_transitions vs x lastVal count = None"
  by (induction vs arbitrary: x) auto

lemma count_transitions_position:
  "count_transitions vs x lastVal count = Some y \<Longrightarrow> x \<le> y \<and> y < x + length vs"
proof (induction vs arbitrary: x lastVal count)
  case Nil
  then show ?case by simp
next
  case (Cons v rest)
  show ?case
  proof (cases "v \<noteq> lastVal \<and> count + 1 = 13")
    case True
    with Cons.prems show ?thesis by simp
  next
    case False
    with Cons.prems obtain lv c where "count_transitions rest (Suc x) lv c = Some y"
      by (auto split: if_splits)
    from Cons.IH [OF this] show ?thesis by simp
  qed
qed

lemma locate_without_one:
  assumes bin: "\<forall>b\<in>set vs. b = 0 \<or> b = (1::int)" and none: "1 \<notin> set vs"
  shows "locate_run_in vs = None"
proof -
  have start: "find_startRunIn vs = 0"
    unfolding find_startRunIn_def by (simp add: first_one_None [OF none])
  have zeros: "\<forall>b\<in>set vs. b = 0" using bin none by auto
  have "count_transitions vs 0 1 0 = None"
  proof (cases vs)
    case Nil
    then show ?thesis by simp
  next
    case (Cons v rest)
    with zeros have "v = 0" and "\<forall>b\<in>set rest. b = 0" by simp_all
    with Cons show ?thesis by (simp add: count_transitions_steady)
  qed
  then have "find_stopRunIn vs 0 = 0" unfolding find_stopRunIn_def by simp
  with start show ?thesis unfolding locate_run_in_def by (simp add: Let_def)
qed

lemma locate_late_start:
  assumes "i < length vs" and "vs ! i = 1" and "\<forall>j<i. vs ! j \<noteq> 1"
    and late: "(of_nat i :: rat) > 0.05 * of_nat (length vs)"
  shows "locate_run_in vs = None"
proof -
  have "find_startRunIn vs = i"
    unfolding find_startRunIn_def using first_one_Some [OF assms(1-3), of 0] by simp
  with late show ?thesis unfolding locate_run_in_def by (simp add: Let_def mult.commute)
qed

lemma length_binary_row: "length (binary_row row) = length row"
  unfolding binary_row_def by (rule length_normalize)

lemma decodeFrame_locator_rejects:
  "locate_run_in (binary_row row) = None \<Longrightarrow> decodeFrame DEBUG row = Returned [0, 0]"
  unfolding decodeFrame_def binary_row_def by (simp add: Let_def)

text \<open>
  C6. A frame whose binary row holds no 1, or whose first 1 lies at a position greater than
  \<open>0.05 * width\<close>, is rejected with \<open>(0, 0)\<close>. (A row without a 1 passes the start test with
  \<open>startRunIn = 0\<close> and is rejected because 13 changes are never counted.)
\<close>

theorem run_in_start_validated:
  assumes "1 \<notin> set (binary_row row)
           \<or> (\<exists>i<length row. binary_row row ! i = 1 \<and> (\<forall>j<i. binary_row row ! j \<noteq> 1)
                 \<and> (of_nat i :: rat) > 0.05 * of_nat (length row))"
  shows "decodeFrame DEBUG row = Returned [0, 0]"
proof -
  have "locate_run_in (binary_row row) = None"
    using assms
  proof (elim disjE exE conjE)
    assume "1 \<notin> set (binary_row row)"
    moreover have "\<forall>b\<in>set (binary_row row). b = 0 \<or> b = 1"
      using binary_row_binary by blast
    ultimately show ?thesis by (intro locate_without_one)
  next
    fix i
    assume "i < length row" "binary_row row ! i = 1" "\<forall>j<i. binary_row row ! j \<noteq> 1"
      "(of_nat i :: rat) > 0.05 * of_nat (length row)"
    then show ?thesis
      by (intro locate_late_start [of i]) (simp_all add: length_binary_row)
  qed
  then show ?thesis by (rule decodeFrame_locator_rejects)
qed

lemma late_start_first_one:
  "binary_row frame_late_start ! 4 = 1
   \<and> list_all (\<lambda>j. binary_row frame_late_start ! j \<noteq> 1) [0..<4]
   \<and> (of_nat 4 :: rat) > 0.05 * of_nat (length frame_late_start)"
  by code_simp

theorem run_in_start_validated_witness:
  "binary_row frame_late_start ! 4 = 1
   \<and> list_all (\<lambda>j. binary_row frame_late_start ! j \<noteq> 1) [0..<4]
   \<and> (of_nat 4 :: rat) > 0.05 * of_nat (length frame_late_start)
   \<and> decodeFrame False frame_late_start = Returned [0, 0]
   \<and> decodeFrame True frame_late_start = Returned [0, 0]"
proof -
  have len: "(4::nat) < length frame_late_start" by code_simp
  from late_start_first_one have "\<forall>j<4. binary_row frame_late_start ! j \<noteq> 1"
    by (simp add: list_all_iff)
  with late_start_first_one len
  have h: "1 \<notin> set (binary_row frame_late_start)
           \<or> (\<exists>i<length frame_late_start. binary_row frame_late_start ! i = 1
                 \<and> (\<forall>j<i. binary_row frame_late_start ! j \<noteq> 1)
                 \<and> (of_nat i :: rat) > 0.05 * of_nat (length frame_late_start))"
    by blast
  from run_in_start_validated [OF h, of False] run_in_start_validated [OF h, of True]
    late_start_first_one
  show ?thesis by simp
qed

text \<open>
  C7. When the locator accepts a run-in, \<open>0.20 * width \<le> stopRunIn \<le> 0.30 * width\<close>; and a
  frame whose 13th change, counted from the first 1, lies outside that band is rejected
  with \<open>(0, 0)\<close>.
\<close>

theorem run_in_band:
  "(locate_run_in values = Some (startRunIn, stopRunIn) \<longrightarrow>
      0.20 * (of_nat (length values) :: rat) \<le> of_nat stopRunIn
      \<and> (of_nat stopRunIn :: rat) \<le> 0.30 * of_nat (length values))
   \<and> (count_transitions (drop (find_startRunIn (binary_row row)) (binary_row row))
          (find_startRunIn (binary_row row)) 1 0 = Some x
        \<and> ((of_nat x :: rat) < 0.20 * of_nat (length row) \<or> (of_nat x :: rat) > 0.30 * of_nat (length row))
      \<longrightarrow> decodeFrame DEBUG row = Returned [0, 0])"
proof (intro conjI impI)
  assume "locate_run_in values = Some (startRunIn, stopRunIn)"
  then show "0.20 * (of_nat (length values) :: rat) \<le> of_nat stopRunIn"
    and "(of_nat stopRunIn :: rat) \<le> 0.30 * of_nat (length values)"
    unfolding locate_run_in_def by (auto simp add: Let_def split: if_splits)
next
  assume a: "count_transitions (drop (find_startRunIn (binary_row row)) (binary_row row))
          (find_startRunIn (binary_row row)) 1 0 = Some x
        \<and> ((of_nat x :: rat) < 0.20 * of_nat (length row) \<or> (of_nat x :: rat) > 0.30 * of_nat (length row))"
  then have "find_stopRunIn (binary_row row) (find_startRunIn (binary_row row)) = x"
    unfolding find_stopRunIn_def by simp
  with a have "locate_run_in (binary_row row) = None"
    unfolding locate_run_in_def by (auto simp add: Let_def length_binary_row)
  then show "decodeFrame DEBUG row = Returned [0, 0]" by (rule decodeFrame_locator_rejects)
qed

theorem run_in_band_witness:
  "locate_run_in (binary_row frame_ok) = Some (0, 13)
   \<and> 0.20 * (of_nat (length (binary_row frame_ok)) :: rat) \<le> of_nat 13
   \<and> (of_nat 13 :: rat) \<le> 0.30 * of_nat (length (binary_row frame_ok))
   \<and> count_transitions (drop (find_startRunIn (binary_row frame_short_run_in)) (binary_row frame_short_run_in))
          (find_startRunIn (binary_row frame_short_run_in)) 1 0 = Some 13
   \<and> (of_nat 13 :: rat) < 0.20 * of_nat (length frame_short_run_in)
   \<and> decodeFrame False frame_short_run_in = Returned [0, 0]"
proof -
  have a: "locate_run_in (binary_row frame_ok) = Some (0, 13)" by code_simp
  have b: "count_transitions (drop (find_startRunIn (binary_row frame_short_run_in)) (binary_row frame_short_run_in))
          (find_startRunIn (binary_row frame_short_run_in)) 1 0 = Some 13" by code_simp
  have c: "(of_nat 13 :: rat) < 0.20 * of_nat (length frame_short_run_in)" by code_simp
  note w = run_in_band [of "binary_row frame_ok" 0 13 frame_short_run_in 13 False]
  from w a have "0.20 * (of_nat (length (binary_row frame_ok)) :: rat) \<le> of_nat 13
   \<and> (of_nat 13 :: rat) \<le> 0.30 * of_nat (length (binary_row frame_ok))" by blast
  moreover from w b c have "decodeFrame False frame_short_run_in = Returned [0, 0]" by blast
  ultimately show ?thesis using a b c by blast
qed

subsection \<open>Bit sampling\<close>

lemma midpoint_half:
  "(of_int (bitStart + bitIdx * bitWidth) + of_int bitWidth / 2 :: rat)
     = of_int (2 * (bitStart + bitIdx * bitWidth) + bitWidth) / of_int 2"
  by (simp add: field_simps)

lemma midpoint_half_spec:
  "(of_int bitStart + of_int bitIdx * of_int bitWidth + of_int bitWidth / 2 :: rat)
     = of_int (2 * (bitStart + bitIdx * bitWidth) + bitWidth) / of_int 2"
  by (simp add: field_simps)

lemma ceiling_half: "\<lceil>of_int n / of_int 2 :: rat\<rceil> = - ((- n) div 2)"
proof -
  have "- (of_int n / of_int 2 :: rat) = of_int (- n) / of_int 2"
    by (simp only: of_int_minus minus_divide_left)
  then have "\<lfloor>- (of_int n / of_int 2 :: rat)\<rfloor> = (- n) div 2"
    by (simp only: floor_divide_of_int_eq)
  then show ?thesis unfolding ceiling_def by (rule arg_cong)
qed

lemma half_sign: "(0 \<le> (of_int n / of_int 2 :: rat)) = (0 \<le> n)"
  by (simp add: zero_le_divide_iff)

lemma bit_offset_eq:
  "bit_offset bitStart bitWidth bitIdx =
     (let n = 2 * (bitStart + bitIdx * bitWidth) + bitWidth
      in if 0 \<le> n then n div 2 else - ((- n) div 2))"
proof -
  let ?n = "2 * (bitStart + bitIdx * bitWidth) + bitWidth"
  have fl: "\<lfloor>of_int ?n / of_int 2 :: rat\<rfloor> = ?n div 2" by (rule floor_divide_of_int_eq)
  have ce: "\<lceil>of_int ?n / of_int 2 :: rat\<rceil> = - ((- ?n) div 2)" by (rule ceiling_half)
  have sg: "(0 \<le> (of_int ?n / of_int 2 :: rat)) = (0 \<le> ?n)" by (rule half_sign)
  show ?thesis
    unfolding bit_offset_def py_int_def midpoint_half Let_def
    by (simp only: fl ce sg)
qed

lemma getBit_spec_eq:
  "getBit_spec values bitStart bitWidth bitIdx =
     (let offset = (2 * (bitStart + bitIdx * bitWidth) + bitWidth) div 2
      in if 0 \<le> offset \<and> offset < int (length values) then values ! nat offset else - 1)"
  unfolding getBit_spec_def midpoint_half_spec by (simp only: floor_divide_of_int_eq)

lemma getBit_nodebug:
  "getBit False values bitStart bitWidth bitIdx =
     Inr (let offset = bit_offset bitStart bitWidth bitIdx
          in if 0 \<le> offset \<and> offset < int (length values) then values ! nat offset else - 1)"
  unfolding getBit_def by (auto simp add: Let_def)

lemma py_index_error: "py_index xs i = Inl e \<Longrightarrow> e = IndexError"
  unfolding py_index_def by (auto split: if_splits)

lemma debug_dump_error:
  "debug_dump values bitStart bitWidth bitIdx xs = Inl e \<Longrightarrow> e = IndexError"
  by (induction xs arbitrary: e) (auto split: sum.splits dest: py_index_error)

lemma getBit_debug:
  "getBit True values bitStart bitWidth bitIdx = getBit False values bitStart bitWidth bitIdx
   \<or> getBit True values bitStart bitWidth bitIdx = Inl IndexError"
  unfolding getBit_def by (auto simp add: Let_def split: sum.splits dest: debug_dump_error)

lemma getBit_floor_rule:
  assumes "2 * (bitStart + bitIdx * bitWidth) + bitWidth \<noteq> - 1"
  shows "getBit False values bitStart bitWidth bitIdx
           = Inr (getBit_spec values bitStart bitWidth bitIdx)"
proof (cases "0 \<le> 2 * (bitStart + bitIdx * bitWidth) + bitWidth")
  case True
  then show ?thesis
    unfolding getBit_nodebug getBit_spec_eq bit_offset_eq by (simp add: Let_def)
next
  case False
  with assms have "2 * (bitStart + bitIdx * bitWidth) + bitWidth \<le> - 2" by simp
  then have "- ((- (2 * (bitStart + bitIdx * bitWidth) + bitWidth)) div 2) < 0"
    and "(2 * (bitStart + bitIdx * bitWidth) + bitWidth) div 2 < 0" by presburger+
  with False show ?thesis
    unfolding getBit_nodebug getBit_spec_eq bit_offset_eq by (simp add: Let_def)
qed

subsection \<open>Reading the bits of a byte\<close>



subsection \<open>Totality with debugging off\<close>

lemma first_one_position: "first_one vs x = Some y \<Longrightarrow> x \<le> y \<and> y < x + length vs"
proof (induction vs arbitrary: x)
  case Nil
  then show ?case by simp
next
  case (Cons v rest)
  show ?case
  proof (cases "v = 1")
    case True
    with Cons.prems show ?thesis by simp
  next
    case False
    with Cons.prems have "first_one rest (Suc x) = Some y" by simp
    from Cons.IH [OF this] show ?thesis by simp
  qed
qed

lemma find_startRunIn_le: "find_startRunIn values \<le> length values"
  unfolding find_startRunIn_def
  by (auto split: option.splits dest: first_one_position)

lemma locate_positions:
  assumes "locate_run_in values = Some (startRunIn, stopRunIn)"
  shows "startRunIn \<le> stopRunIn \<and> stopRunIn < length values"
proof -
  from assms have s: "startRunIn = find_startRunIn values"
    and nz: "find_stopRunIn values startRunIn \<noteq> 0"
    and t: "stopRunIn = find_stopRunIn values startRunIn"
    unfolding locate_run_in_def by (auto simp add: Let_def split: if_splits)
  from nz t have "count_transitions (drop startRunIn values) startRunIn 1 0 = Some stopRunIn"
    unfolding find_stopRunIn_def by (auto split: option.splits)
  from count_transitions_position [OF this] find_startRunIn_le [of "values"] s
  show ?thesis by simp
qed

lemma scan_bitStart_total:
  "bitStart < length vs \<Longrightarrow>
   \<exists>b. scan_bitStart vs bitStart = Inr b \<and> bitStart \<le> b \<and> b < length vs"
proof (induction vs bitStart rule: scan_bitStart.induct)
  case (1 vs bitStart)
  show ?case
  proof (cases "vs ! bitStart = 0 \<and> int bitStart < int (length vs) - 1")
    case True
    then have "Suc bitStart < length vs" by simp
    with "1.IH" "1.prems" True
    obtain b where "scan_bitStart vs (Suc bitStart) = Inr b" "Suc bitStart \<le> b" "b < length vs"
      by auto
    with True "1.prems" show ?thesis
      by (subst scan_bitStart.simps) auto
  next
    case False
    with "1.prems" show ?thesis
      by (subst scan_bitStart.simps) auto
  qed
qed

lemma calibrate_total:
  assumes "locate_run_in values = Some (startRunIn, stopRunIn)"
  shows "\<exists>bitStart bitWidth. calibrate values startRunIn stopRunIn = Inr (bitStart, bitWidth)"
proof -
  from locate_positions [OF assms] have "stopRunIn < length values" by simp
  from scan_bitStart_total [OF this] show ?thesis
    unfolding calibrate_def by (auto simp add: Let_def)
qed

lemma getBit_nodebug_Inr: "\<exists>v. getBit False values bitStart bitWidth bitIdx = Inr v"
  by (simp add: getBit_nodebug)

lemma read_data_bits_nodebug:
  "read_data_bits False values bitStart bitWidth base bs byte parity = Inl e \<Longrightarrow> e = ValueError"
proof (induction bs arbitrary: byte parity)
  case Nil
  then show ?case by simp
next
  case (Cons b bs)
  obtain v where v: "getBit False values bitStart bitWidth (base + int b) = Inr v"
    using getBit_nodebug_Inr by blast
  from Cons.prems show ?case
    by (simp only: read_data_bits.simps v sum.case split: if_splits) (auto dest: Cons.IH)
qed

lemma decode_group_nodebug:
  "decode_group False values bitStart bitWidth base = Inl e \<Longrightarrow> e = ValueError"
proof -
  assume a: "decode_group False values bitStart bitWidth base = Inl e"
  obtain p where p: "getBit False values bitStart bitWidth (base + 7) = Inr p"
    using getBit_nodebug_Inr by blast
  from a show ?thesis
    unfolding decode_group_def
    by (simp only: p sum.case split: sum.splits prod.splits if_splits)
       (auto dest: read_data_bits_nodebug)
qed

lemma assemble_nodebug:
  "assemble False values bitStart bitWidth = Inl e \<Longrightarrow> e = ValueError"
proof -
  assume a: "assemble False values bitStart bitWidth = Inl e"
  obtain s3 s2 s1 where s:
    "getBit False values bitStart bitWidth (- 3) = Inr s3"
    "getBit False values bitStart bitWidth (- 2) = Inr s2"
    "getBit False values bitStart bitWidth (- 1) = Inr s1"
    using getBit_nodebug_Inr by metis
  from a show ?thesis
    unfolding assemble_def
    by (simp only: s sum.case split: sum.splits if_splits) (auto dest: decode_group_nodebug)
qed

lemma handle_try_nodebug:
  assumes "\<And>e. r = Inl e \<Longrightarrow> e = ValueError" and "\<And>data. r = Inr data \<Longrightarrow> length data = 2"
  shows "\<exists>byte0 byte1. handle_try False r = Returned [byte0, byte1]"
proof (cases r)
  case (Inl e)
  with assms(1) have "r = Inl ValueError" by simp
  then show ?thesis unfolding handle_try_def by simp
next
  case (Inr data)
  with assms(2) have "length data = 2" by simp
  then obtain a b where "data = [a, b]"
    by (cases data) (auto simp add: length_Suc_conv)
  with Inr show ?thesis unfolding handle_try_def by simp
qed

text \<open>
  With debugging off every call returns a pair: no exception leaves the decoder, and the
  handler turns each \<^verbatim>\<open>ValueError\<close> into \<open>(0, 0)\<close>.
\<close>

lemma decodeFrame_nodebug_total:
  "\<exists>byte0 byte1. decodeFrame False row = Returned [byte0, byte1]"
proof (cases "find_maxluma row 0 < 32")
  case True
  then show ?thesis unfolding decodeFrame_def by simp
next
  case False
  show ?thesis
  proof (cases "locate_run_in (binary_row row)")
    case None
    from decodeFrame_locator_rejects [OF this] show ?thesis by simp
  next
    case (Some p)
    obtain startRunIn stopRunIn where p: "p = (startRunIn, stopRunIn)" by (cases p)
    with Some have loc: "locate_run_in (binary_row row) = Some (startRunIn, stopRunIn)" by simp
    from calibrate_total [OF loc] obtain bitStart bitWidth where
      cal: "calibrate (binary_row row) startRunIn stopRunIn = Inr (bitStart, bitWidth)" by blast
    have "\<exists>byte0 byte1. handle_try False (assemble False (binary_row row) bitStart bitWidth)
            = Returned [byte0, byte1]"
      by (rule handle_try_nodebug) (auto dest: assemble_nodebug assemble_range)
    then show ?thesis
      unfolding decodeFrame_def Let_def
      by (simp only: False if_False binary_row_def [symmetric] loc option.case prod.case cal sum.case)
  qed
qed

lemma append_all_in_range:
  "\<forall>b\<in>set r. 0 \<le> b \<and> b < 256 \<Longrightarrow> append_all bytes r = Inr (bytes @ r)"
  by (induction r arbitrary: bytes) auto

lemma collect_returned:
  "\<forall>r\<in>set rs. \<exists>bytes. r = Returned bytes \<and> (\<forall>b\<in>set bytes. 0 \<le> b \<and> b < 256) \<Longrightarrow>
   collect acc rs = Inr (acc @ concat (map returned_bytes rs))"
proof (induction rs arbitrary: acc)
  case Nil
  show ?case by simp
next
  case (Cons r rs)
  from Cons.prems obtain bytes where r: "r = Returned bytes"
    and rng: "\<forall>b\<in>set bytes. 0 \<le> b \<and> b < 256" by auto
  from Cons.prems have "\<forall>r\<in>set rs. \<exists>bytes. r = Returned bytes \<and> (\<forall>b\<in>set bytes. 0 \<le> b \<and> b < 256)"
    by simp
  from Cons.IH [OF this] show ?case
    by (simp add: r append_all_in_range [OF rng] returned_bytes_def)
qed

lemma first_raised_none:
  "\<forall>r\<in>set rs. \<exists>bytes. r = Returned bytes \<Longrightarrow> first_raised rs = None"
  by (induction rs) auto

lemma decodeFrame_nodebug_bytes:
  "\<exists>bytes. decodeFrame False row = Returned bytes \<and> length bytes = 2
     \<and> (\<forall>b\<in>set bytes. 0 \<le> b \<and> b < 256)"
proof -
  from decodeFrame_nodebug_total [of row] obtain byte0 byte1 where
    d: "decodeFrame False row = Returned [byte0, byte1]" by blast
  from decodeFrame_Returned [OF d] have "\<forall>b\<in>set [byte0, byte1]. 0 \<le> b \<and> b \<le> 127"
    using assemble_range by fastforce
  then have "\<forall>b\<in>set [byte0, byte1]. 0 \<le> b \<and> b < 256" by simp
  with d show ?thesis by simp
qed

text \<open>
  With debugging off the batch driver returns the results of the frames concatenated in
  the order of the input list, two bytes for each frame.
\<close>

lemma getByteStream_nodebug:
  "getByteStream sampler images line False
     = Inr (concat (map (\<lambda>i. returned_bytes (decodeFrame False (sampler i line))) images))
   \<and> length (concat (map (\<lambda>i. returned_bytes (decodeFrame False (sampler i line))) images))
       = 2 * length images"
proof
  let ?results = "map (\<lambda>i. decodeFrame False (sampler i line)) images"
  have all: "\<forall>r\<in>set ?results. \<exists>bytes. r = Returned bytes \<and> (\<forall>b\<in>set bytes. 0 \<le> b \<and> b < 256)"
    using decodeFrame_nodebug_bytes by fastforce
  then have "first_raised ?results = None" by (intro first_raised_none) blast
  moreover from collect_returned [OF all, of "[]"]
  have "collect [] ?results = Inr (concat (map returned_bytes ?results))" by simp
  ultimately show "getByteStream sampler images line False
     = Inr (concat (map (\<lambda>i. returned_bytes (decodeFrame False (sampler i line))) images))"
    unfolding getByteStream_def by (simp add: Let_def comp_def)
  show "length (concat (map (\<lambda>i. returned_bytes (decodeFrame False (sampler i line))) images))
       = 2 * length images"
  proof (induction images)
    case Nil
    show ?case by simp
  next
    case (Cons i images)
    from decodeFrame_nodebug_bytes [of "sampler i line"] obtain bytes where
      "decodeFrame False (sampler i line) = Returned bytes" "length bytes = 2" by blast
    with Cons show ?case by (simp add: returned_bytes_def)
  qed
qed

subsection \<open>Where the code departs from its documentation\<close>

text \<open>
  C1. The docstring of \<^verbatim>\<open>decodeFrame\<close> promises two bytes or a pair of nulls. With
  debugging on, a frame rejected inside the \<^verbatim>\<open>try\<close> (here by the parity check) makes the
  function return \<^verbatim>\<open>None\<close>, because \<^verbatim>\<open>return (0, 0)\<close> stands in the \<^verbatim>\<open>else\<close> branch of
  the handler; and the slot dump of \<^verbatim>\<open>getBit\<close> can read past the end of the row, an
  \<^verbatim>\<open>IndexError\<close> that the handler does not catch. With debugging off the same frames give
  \<open>(0, 0)\<close> and the decoded bytes.
\<close>

theorem debug_rejection_returns_nothing:
  "decodeFrame False frame_bad_parity = Returned [0, 0]
   \<and> decodeFrame True frame_bad_parity = ReturnedNone
   \<and> decodeFrame False frame_wide_bits = Returned [65, 0]
   \<and> decodeFrame True frame_wide_bits = Raised IndexError"
  by code_simp

text \<open>
  C2. The data bits are tested for the sentinel \<open>-1\<close>, the parity bit is not: when its slot
  lies beyond the row, \<^verbatim>\<open>(getBit(base + 7) + parity) & 1\<close> is computed with \<open>-1\<close> and the
  frame is accepted whenever the data bits hold an even number of ones. \<open>frame_truncated\<close>
  ends before the second parity bit and is decoded to the bytes 65 and 66.
\<close>

theorem missing_parity_bit_accepted:
  "locate_run_in (binary_row frame_truncated) = Some (0, 13)
   \<and> calibrate (binary_row frame_truncated) 0 13 = Inr (18, 2)
   \<and> getBit False (binary_row frame_truncated) 18 2 15 = Inr (- 1)
   \<and> decodeFrame False frame_truncated = Returned [65, 66]"
  by code_simp

text \<open>
  C3. With debugging on, a batch holding a frame rejected inside the \<^verbatim>\<open>try\<close> does not
  return a byte stream: the result \<^verbatim>\<open>None\<close> of that frame cannot be iterated.
\<close>

theorem batch_fails_in_debug_mode:
  "getByteStream (\<lambda>image line. image) [frame_ok, frame_bad_parity, frame_ok] 21 True = Inl TypeError
   \<and> getByteStream (\<lambda>image line. image) [frame_ok, frame_bad_parity, frame_ok] 21 False
       = Inr [65, 0, 0, 0, 65, 0]"
  by code_simp

subsection \<open>The bit indices the decoder samples\<close>

text \<open>
  The decoder calls the sampler with the indices \<open>-3\<close> to 15 only. The 13th change lies at
  least 12 positions after the first 1, a bit is at most two thirds of \<open>stopRunIn\<close> wide,
  and so the midpoint of every slot from \<open>-3\<close> on is not negative: there truncation and
  floor agree.
\<close>

lemma count_transitions_distance:
  "count_transitions vs x lastVal count = Some y \<Longrightarrow> count \<le> 12 \<Longrightarrow> x + 12 \<le> y + count"
proof (induction vs arbitrary: x lastVal count)
  case Nil
  then show ?case by simp
next
  case (Cons v rest)
  show ?case
  proof (cases "v \<noteq> lastVal")
    case True
    show ?thesis
    proof (cases "count + 1 = 13")
      case True
      with \<open>v \<noteq> lastVal\<close> Cons.prems show ?thesis by simp
    next
      case False
      with \<open>v \<noteq> lastVal\<close> Cons.prems
      have "count_transitions rest (Suc x) v (count + 1) = Some y" and "count + 1 \<le> 12"
        by simp_all
      from Cons.IH [OF this] show ?thesis by simp
    qed
  next
    case False
    with Cons.prems have "count_transitions rest (Suc x) lastVal count = Some y" by simp
    from Cons.IH [OF this Cons.prems(2)] show ?thesis by simp
  qed
qed

lemma ceiling_of_int_div: "\<lceil>of_int a / of_int b :: rat\<rceil> = - ((- a) div b)"
proof -
  have "- (of_int a / of_int b :: rat) = of_int (- a) / of_int b"
    by (simp only: of_int_minus minus_divide_left)
  then have "\<lfloor>- (of_int a / of_int b :: rat)\<rfloor> = (- a) div b"
    by (simp only: floor_divide_of_int_eq)
  then show ?thesis unfolding ceiling_def by (rule arg_cong)
qed

lemma span_fraction: "(of_int r :: rat) / 0.251 * 0.038 = of_int (38 * r) / of_int 251"
  by simp

lemma bit_width_eq:
  "bit_width startRunIn stopRunIn = - ((- (38 * (int stopRunIn - int startRunIn))) div 251)"
  unfolding bit_width_def Let_def by (simp only: span_fraction ceiling_of_int_div)

lemma bit_width_bounds:
  assumes "startRunIn \<le> stopRunIn" and "2 \<le> stopRunIn"
  shows "0 \<le> bit_width startRunIn stopRunIn \<and> 3 * bit_width startRunIn stopRunIn \<le> 2 * int stopRunIn"
proof -
  define r where "r = int stopRunIn - int startRunIn"
  define s where "s = int stopRunIn"
  have r: "0 \<le> r" "r \<le> s" and s: "2 \<le> s" using assms unfolding r_def s_def by simp_all
  define q where "q = (- (38 * r)) div 251"
  define m where "m = (- (38 * r)) mod 251"
  have "251 * q + m = - (38 * r)" unfolding q_def m_def by simp
  moreover have "0 \<le> m" "m < 251" unfolding m_def by simp_all
  ultimately have "0 \<le> - q \<and> 3 * (- q) \<le> 2 * s" using r s by linarith
  then show ?thesis unfolding bit_width_eq q_def r_def s_def .
qed

lemma sampled_midpoints_in_front:
  assumes loc: "locate_run_in vs = Some (startRunIn, stopRunIn)"
    and cal: "calibrate vs startRunIn stopRunIn = Inr (bitStart, bitWidth)"
    and idx: "- 3 \<le> bitIdx"
  shows "0 \<le> 2 * (bitStart + bitIdx * bitWidth) + bitWidth"
proof -
  from loc have nz: "find_stopRunIn vs startRunIn \<noteq> 0"
    and t: "stopRunIn = find_stopRunIn vs startRunIn"
    unfolding locate_run_in_def by (auto simp add: Let_def split: if_splits)
  then have ct: "count_transitions (drop startRunIn vs) startRunIn 1 0 = Some stopRunIn"
    unfolding find_stopRunIn_def by (auto split: option.splits)
  from count_transitions_distance [OF ct] have far: "startRunIn + 12 \<le> stopRunIn" by simp
  then have "startRunIn \<le> stopRunIn" "2 \<le> stopRunIn" by simp_all
  from bit_width_bounds [OF this]
  have w0: "0 \<le> bit_width startRunIn stopRunIn"
    and w3: "3 * bit_width startRunIn stopRunIn \<le> 2 * int stopRunIn" by simp_all
  from locate_positions [OF loc] have "stopRunIn < length vs" by simp
  from scan_bitStart_total [OF this] obtain b where
    b: "scan_bitStart vs stopRunIn = Inr b" "stopRunIn \<le> b" by blast
  with cal have bs: "bitStart = int b + bitWidth" and bw: "bitWidth = bit_width startRunIn stopRunIn"
    unfolding calibrate_def by (simp_all add: Let_def)
  from w0 bw have "0 \<le> bitWidth" by simp
  with idx have "(- 3) * bitWidth \<le> bitIdx * bitWidth" by (rule mult_right_mono)
  with bs bw w3 b(2) show ?thesis by simp
qed

lemma sampler_floor_rule_in_decoder:
  assumes "locate_run_in vs = Some (startRunIn, stopRunIn)"
    and "calibrate vs startRunIn stopRunIn = Inr (bitStart, bitWidth)"
    and "- 3 \<le> bitIdx"
  shows "getBit False vs bitStart bitWidth bitIdx = Inr (getBit_spec vs bitStart bitWidth bitIdx)"
proof (rule getBit_floor_rule)
  from sampled_midpoints_in_front [OF assms]
  show "2 * (bitStart + bitIdx * bitWidth) + bitWidth \<noteq> - 1" by simp
qed

subsection \<open>The sampler with debugging on\<close>

text \<open>
  C4. With debugging off the sampler follows the floor rule at every call the decoder
  makes (\<open>sampler_floor_rule_in_decoder\<close>). With debugging on it does not: on
  \<open>frame_wide_bits\<close> the decoder reaches \<open>bitStart = 20\<close>, \<open>bitWidth = 3\<close> and samples bit 15,
  whose offset \<open>floor(20 + 15 * 3 + 3 / 2) = 66\<close> is inside the row of 67 samples and holds 1;
  the slot dump reads position 67 first and the call raises \<^verbatim>\<open>IndexError\<close> instead of
  returning the value.
\<close>

theorem sampler_debug_dump_raises:
  "locate_run_in (binary_row frame_wide_bits) = Some (0, 14)
   \<and> calibrate (binary_row frame_wide_bits) 0 14 = Inr (20, 3)
   \<and> getBit_spec (binary_row frame_wide_bits) 20 3 15 = 1
   \<and> getBit False (binary_row frame_wide_bits) 20 3 15 = Inr 1
   \<and> getBit True (binary_row frame_wide_bits) 20 3 15 = Inl IndexError"
  by code_simp

subsection \<open>Encoded rows: levels and normalisation\<close>












subsection \<open>Encoded rows: the run-in\<close>







subsection \<open>Encoded rows: positions of the slots\<close>





subsection \<open>Encoded rows: calibration and sampling\<close>









subsection \<open>Encoded rows: the round trip\<close>











end
